theory Spec2Isabelle
  imports Complex_Main "HOL-Library.AList"
begin

section \<open>JavaScript values used by the call monitor\<close>

text \<open>
  Errors are values. \<open>Error\<close> carries the message and \<open>error.response?.status\<close>
  (absent when the error has no HTTP response); \<open>TypeError\<close> is what a property read
  on \<open>undefined\<close> throws.
\<close>

datatype js_error =
    Error (message: string) (response_status: "int option")
  | TypeError (message: string)

text \<open>
  A \<open>Date\<close> is its epoch milliseconds; \<open>new Date(undefined)\<close> is the invalid date, and
  arithmetic on it gives \<open>NaN\<close>. Numbers are exact rationals: the rounding of IEEE
  doubles is outside the model.
\<close>

datatype jsdate = Date int | InvalidDate

datatype jsnum = Num rat | NaN

definition new_Date :: "int option \<Rightarrow> jsdate" where
  "new_Date t = (case t of Some ms \<Rightarrow> Date ms | None \<Rightarrow> InvalidDate)"

fun date_minus :: "jsdate \<Rightarrow> jsdate \<Rightarrow> jsnum" where
  "date_minus (Date a) (Date b) = Num (of_int (a - b))"
| "date_minus _ _ = NaN"

fun num_divide :: "jsnum \<Rightarrow> rat \<Rightarrow> jsnum" where
  "num_divide (Num a) d = Num (a / d)"
| "num_divide NaN d = NaN"

section \<open>retry.js: exponential backoff\<close>

text \<open>
  The wrapped operation \<open>fn\<close> is an oracle: \<open>fn k\<close> is the outcome of its invocation
  number \<open>k\<close> (from 0), \<open>Inl\<close> a thrown error. \<open>random k\<close> is the value of draw number
  \<open>k\<close> of \<open>Math.random()\<close>. The loop records what it does, in order: an \<open>Invoke\<close> for
  each call of \<open>fn\<close> and a \<open>Wait ms\<close> for each \<open>setTimeout\<close> it awaits.
\<close>

datatype retry_action = Invoke | Wait rat

function retry_loop ::
  "(nat \<Rightarrow> js_error + 'a) \<Rightarrow> int \<Rightarrow> rat \<Rightarrow> (js_error \<Rightarrow> bool) \<Rightarrow> (nat \<Rightarrow> rat) \<Rightarrow>
   nat \<Rightarrow> js_error option \<Rightarrow> retry_action list \<Rightarrow> (js_error + 'a) \<times> retry_action list"
where
  "retry_loop fn maxRetries initialDelay shouldRetry random retries lastError trace =
     (if int retries < maxRetries then
        (case fn retries of
           Inr v \<Rightarrow> (Inr v, trace @ [Invoke])
         | Inl error \<Rightarrow>
             if \<not> shouldRetry error \<or> int retries = maxRetries - 1
             then (Inl error, trace @ [Invoke])
             else
               let delay = initialDelay * 2 ^ retries;
                   jitter = random retries * (2 / 10) * delay
               in retry_loop fn maxRetries initialDelay shouldRetry random
                    (retries + 1) (Some error) (trace @ [Invoke, Wait (delay + jitter)]))
      else
        (case lastError of
           Some e \<Rightarrow> (Inl e, trace)
         | None \<Rightarrow> (Inl (Error ''Retry failed'' None), trace)))"
  by pat_completeness auto
termination
  by (relation "measure (\<lambda>(fn, maxRetries, initialDelay, shouldRetry, random, retries, lastError, trace).
        nat (maxRetries - int retries))") auto

declare retry_loop.simps [simp del]

definition retry ::
  "(nat \<Rightarrow> js_error + 'a) \<Rightarrow> int \<Rightarrow> rat \<Rightarrow> (js_error \<Rightarrow> bool) \<Rightarrow> (nat \<Rightarrow> rat) \<Rightarrow>
   (js_error + 'a) \<times> retry_action list"
where
  "retry fn maxRetries initialDelay shouldRetry random =
     retry_loop fn maxRetries initialDelay shouldRetry random 0 None []"

definition invocations :: "retry_action list \<Rightarrow> nat" where
  "invocations trace = length (filter (\<lambda>a. a = Invoke) trace)"

fun waits :: "retry_action list \<Rightarrow> rat list" where
  "waits [] = []"
| "waits (Invoke # as) = waits as"
| "waits (Wait d # as) = d # waits as"

section \<open>callMonitoring.js: the data model\<close>

record event_data =
  data_text :: "string option"
  data_speaker :: "string option"
  data_score :: "rat option"

definition empty_data :: event_data where
  "empty_data = \<lparr>data_text = None, data_speaker = None, data_score = None\<rparr>"

text \<open>An event as delivered: \<open>timestamp\<close> and \<open>data\<close> may be missing.\<close>

record event =
  ev_id :: string
  ev_type :: string
  ev_timestamp :: "int option"
  ev_data :: "event_data option"

text \<open>An event as stored in \<open>callData.events\<close>.\<close>

record stored_event =
  se_id :: string
  se_type :: string
  se_timestamp :: jsdate
  se_data :: event_data

record call_analytics =
  talkTime :: rat
  silenceDuration :: rat
  interruptions :: nat
  sentimentScores :: "(rat option \<times> jsdate) list"

type_synonym metadata = "(string \<times> string) list"

record callData =
  call_id :: string
  metadata :: metadata
  status :: string
  events :: "stored_event list"
  createdAt :: jsdate
  lastUpdated :: jsdate
  analytics :: call_analytics
  answeredAt :: "jsdate option"
  endedAt :: "jsdate option"
  duration :: "jsnum option"
  transcription :: "string option"

text \<open>
  What \<open>this.emit(name, payload)\<close> publishes: one constructor for each payload shape.
  A per-type notification \<open>CallEvent name callId event\<close> carries the event name it was
  published under, \<open>call:<type>\<close>, since the type is free-form.
\<close>

datatype notification =
    MonitoringStarted
  | MonitoringStopped
  | CallAdded callData
  | CallRemoved callData
  | CallUpdated callData
  | StatusChanged string string string jsdate
  | CallEvent string string event
  | ErrorEvent js_error

text \<open>The event name a notification is published under.\<close>

fun channel :: "notification \<Rightarrow> string" where
  "channel MonitoringStarted = ''monitoring:started''"
| "channel MonitoringStopped = ''monitoring:stopped''"
| "channel (CallAdded callData) = ''call:added''"
| "channel (CallRemoved callData) = ''call:removed''"
| "channel (CallUpdated callData) = ''call:updated''"
| "channel (StatusChanged callId from to timestamp) = ''call:status_changed''"
| "channel (CallEvent name callId event) = name"
| "channel (ErrorEvent error) = ''error''"

text \<open>
  The monitor object. \<open>activeCalls\<close> is the JavaScript \<open>Map\<close>, kept in insertion order;
  \<open>emitted\<close> is the log of notifications published so far and \<open>timeouts\<close> the pending
  \<open>setTimeout(() => this.removeCall(callId), ms)\<close> timers as (ms, callId).
  \<open>errorListener\<close> says whether a subscriber has registered a listener for the \<open>error\<close>
  event on the monitor (with the inherited \<open>on\<close>); the class registers none itself.
\<close>

record monitor =
  activeCalls :: "(string \<times> callData) list"
  monitoringInterval :: nat
  monitoringEnabled :: bool
  monitoringIntervalId :: "nat option"
  emitted :: "notification list"
  timeouts :: "(nat \<times> string) list"
  errorListener :: bool

text \<open>The result of \<open>vapi.calls.get\<close>; a missing \<open>events\<close> is the empty list.\<close>

record snapshot =
  snap_status :: string
  snap_events :: "event list"

definition new_CallMonitor :: "nat option \<Rightarrow> monitor" where
  "new_CallMonitor interval =
     \<lparr>activeCalls = [],
      monitoringInterval = (case interval of None \<Rightarrow> 5000 | Some n \<Rightarrow> if n = 0 then 5000 else n),
      monitoringEnabled = False,
      monitoringIntervalId = None,
      emitted = [],
      timeouts = [],
      errorListener = False\<rparr>"


text \<open>
  The inherited \<open>EventEmitter.emit\<close>. The subscribers are outside the model and are taken
  to return: \<open>emit\<close> records the notification and returns. The \<open>error\<close> event is
  Node's special case: when no listener is registered for it, \<open>emit('error', error)\<close>
  publishes nothing and throws the error.
\<close>

definition emit :: "notification \<Rightarrow> monitor \<Rightarrow> monitor" where
  "emit n s = s\<lparr>emitted := emitted s @ [n]\<rparr>"

definition emit_error :: "js_error \<Rightarrow> monitor \<Rightarrow> monitor \<times> js_error option" where
  "emit_error error s =
     (if errorListener s then (emit (ErrorEvent error) s, None) else (s, Some error))"

section \<open>callMonitoring.js: the registry\<close>

definition startMonitoring :: "monitor \<Rightarrow> monitor" where
  "startMonitoring s =
     (if monitoringIntervalId s \<noteq> None then s
      else emit MonitoringStarted
             (s\<lparr>monitoringEnabled := True,
                monitoringIntervalId := Some (monitoringInterval s)\<rparr>))"

definition stopMonitoring :: "monitor \<Rightarrow> monitor" where
  "stopMonitoring s =
     (if monitoringIntervalId s = None then s
      else emit MonitoringStopped
             (s\<lparr>monitoringIntervalId := None, monitoringEnabled := False\<rparr>))"

definition getCall :: "string \<Rightarrow> monitor \<Rightarrow> callData option" where
  "getCall callId s = map_of (activeCalls s) callId"

definition has_call :: "string \<Rightarrow> monitor \<Rightarrow> bool" where
  "has_call callId s = (map_of (activeCalls s) callId \<noteq> None)"

definition set_call :: "string \<Rightarrow> callData \<Rightarrow> monitor \<Rightarrow> monitor" where
  "set_call callId cd s = s\<lparr>activeCalls := AList.update callId cd (activeCalls s)\<rparr>"

definition new_callData :: "int \<Rightarrow> string \<Rightarrow> metadata \<Rightarrow> callData" where
  "new_callData now callId md =
     \<lparr>call_id = callId,
      metadata = md,
      status = ''initializing'',
      events = [],
      createdAt = Date now,
      lastUpdated = Date now,
      analytics = \<lparr>talkTime = 0, silenceDuration = 0, interruptions = 0, sentimentScores = []\<rparr>,
      answeredAt = None,
      endedAt = None,
      duration = None,
      transcription = None\<rparr>"

text \<open>
  \<open>addCall\<close> returns the new state and the value the promise resolves to
  (\<open>None\<close> is \<open>undefined\<close>). \<open>now\<close> is the clock read by \<open>new Date()\<close>.
\<close>

definition addCall :: "int \<Rightarrow> string \<Rightarrow> metadata \<Rightarrow> monitor \<Rightarrow> monitor \<times> callData option" where
  "addCall now callId md s =
     (if has_call callId s then (s, None)
      else
        let callData = new_callData now callId md;
            s1 = emit (CallAdded callData) (set_call callId callData s);
            s2 = (if monitoringIntervalId s1 = None then startMonitoring s1 else s1)
        in (s2, Some callData))"

definition removeCall :: "string \<Rightarrow> monitor \<Rightarrow> monitor" where
  "removeCall callId s =
     (case map_of (activeCalls s) callId of
        None \<Rightarrow> s
      | Some callData \<Rightarrow>
          let s1 = emit (CallRemoved callData)
                     (s\<lparr>activeCalls := AList.delete callId (activeCalls s)\<rparr>)
          in if length (activeCalls s1) = 0 then stopMonitoring s1 else s1)"

definition getActiveCalls :: "monitor \<Rightarrow> callData list" where
  "getActiveCalls s = map snd (activeCalls s)"

section \<open>callMonitoring.js: transcription analytics\<close>

text \<open>
  \<open>text.split(/\s+/).length\<close>: one more than the number of maximal runs of whitespace
  (a leading or trailing run leaves an empty string in the array, and the empty text
  splits into one empty string). Whitespace is the ASCII part of \<open>\s\<close>.
\<close>

definition is_space :: "char \<Rightarrow> bool" where
  "is_space c = (c = CHR '' '' \<or> c = CHR 0x09 \<or> c = CHR 0x0A \<or> c = CHR 0x0B \<or>
                 c = CHR 0x0C \<or> c = CHR 0x0D)"

fun space_runs :: "bool \<Rightarrow> string \<Rightarrow> nat" where
  "space_runs in_run [] = 0"
| "space_runs in_run (c # cs) =
     (if is_space c then (if in_run then 0 else 1) + space_runs True cs
      else space_runs False cs)"

definition split_length :: "string \<Rightarrow> nat" where
  "split_length txt = 1 + space_runs False txt"

definition endsWith :: "string \<Rightarrow> char \<Rightarrow> bool" where
  "endsWith txt c = (txt \<noteq> [] \<and> last txt = c)"

text \<open>
  \<open>_analyzeTranscription\<close> mutates \<open>callData.analytics\<close>; reading \<open>.split\<close> of a missing
  text throws before anything is changed.
\<close>

definition analyzeTranscription :: "callData \<Rightarrow> event_data \<Rightarrow> js_error + callData" where
  "analyzeTranscription callData tr =
     (case data_text tr of
        None \<Rightarrow> Inl (TypeError ''Cannot read properties of undefined (reading split)'')
      | Some txt \<Rightarrow>
          let wordCount = split_length txt;
              isInterruption = (data_speaker tr = Some ''assistant'' \<and>
                                endsWith txt (CHR ''?'') \<and> length txt < 30);
              a = analytics callData;
              a1 = (if isInterruption then a\<lparr>interruptions := interruptions a + 1\<rparr> else a);
              wordsPerMinute = 150
          in Inr (callData\<lparr>analytics :=
                    a1\<lparr>talkTime := talkTime a1 + (of_nat wordCount / wordsPerMinute) * 60\<rparr>\<rparr>))"

section \<open>callMonitoring.js: event ingestion\<close>

text \<open>
  The type-specific part of the loop body of \<open>_processCallEvents\<close> (lines 139 to 154).
  It returns the record as mutated so far, and the error when a read of \<open>event.data\<close>
  throws.
\<close>

definition handle_event :: "event \<Rightarrow> callData \<Rightarrow> callData \<times> js_error option" where
  "handle_event event callData =
     (if ev_type event = ''call.answered'' then
        (callData\<lparr>status := ''in-progress'',
                  answeredAt := Some (new_Date (ev_timestamp event))\<rparr>, None)
      else if ev_type event = ''call.ended'' then
        (let ended = new_Date (ev_timestamp event)
         in (callData\<lparr>status := ''completed'',
                      endedAt := Some ended,
                      duration := Some (num_divide (date_minus ended (createdAt callData)) 1000)\<rparr>,
             None))
      else if ev_type event = ''call.transcription'' then
        (case ev_data event of
           None \<Rightarrow> (callData, Some (TypeError ''Cannot read properties of undefined (reading text)''))
         | Some d \<Rightarrow>
             (let cd1 = callData\<lparr>transcription := data_text d\<rparr>
              in case analyzeTranscription cd1 d of
                   Inl e \<Rightarrow> (cd1, Some e)
                 | Inr cd2 \<Rightarrow> (cd2, None)))
      else if ev_type event = ''call.sentiment'' then
        (case ev_data event of
           None \<Rightarrow> (callData, Some (TypeError ''Cannot read properties of undefined (reading score)''))
         | Some d \<Rightarrow>
             (let a = analytics callData
              in (callData\<lparr>analytics :=
                     a\<lparr>sentimentScores :=
                         sentimentScores a @ [(data_score d, new_Date (ev_timestamp event))]\<rparr>\<rparr>,
                  None)))
      else (callData, None))"

definition already_processed :: "callData \<Rightarrow> event \<Rightarrow> bool" where
  "already_processed callData event = list_ex (\<lambda>e. se_id e = ev_id event) (events callData)"

definition store_event :: "event \<Rightarrow> stored_event" where
  "store_event event =
     \<lparr>se_id = ev_id event,
      se_type = ev_type event,
      se_timestamp = new_Date (ev_timestamp event),
      se_data = (case ev_data event of None \<Rightarrow> empty_data | Some d \<Rightarrow> d)\<rparr>"

text \<open>
  The \<open>for\<close> loop of \<open>_processCallEvents\<close> over the record and the notifications it
  publishes; an exception leaves the loop with the record as it is at that point.
\<close>

fun process_loop ::
  "int \<Rightarrow> string \<Rightarrow> event list \<Rightarrow> callData \<Rightarrow> notification list \<Rightarrow>
   (callData \<times> notification list) \<times> js_error option"
where
  "process_loop now callId [] callData out = ((callData, out), None)"
| "process_loop now callId (event # rest) callData out =
     (if already_processed callData event then process_loop now callId rest callData out
      else
        (case handle_event event callData of
           (cd1, Some err) \<Rightarrow> ((cd1, out), Some err)
         | (cd1, None) \<Rightarrow>
             process_loop now callId rest
               (cd1\<lparr>events := events cd1 @ [store_event event], lastUpdated := Date now\<rparr>)
               (out @ [CallEvent (''call:'' @ ev_type event) callId event])))"

definition processCallEvents ::
  "int \<Rightarrow> string \<Rightarrow> event list \<Rightarrow> monitor \<Rightarrow> monitor \<times> js_error option"
where
  "processCallEvents now callId evs s =
     (case getCall callId s of
        None \<Rightarrow> (s, None)
      | Some callData \<Rightarrow>
          (case process_loop now callId evs callData [] of
             ((cd, out), Some err) \<Rightarrow>
               ((set_call callId cd s)\<lparr>emitted := emitted s @ out\<rparr>, Some err)
           | ((cd, out), None) \<Rightarrow>
               ((set_call callId cd s)\<lparr>emitted := emitted s @ out @ [CallUpdated cd]\<rparr>, None)))"

section \<open>callMonitoring.js: the polling sweep\<close>

definition not_404 :: "js_error \<Rightarrow> bool" where
  "not_404 error =
     (case error of Error m st \<Rightarrow> st \<noteq> Some 404 | TypeError m \<Rightarrow> True)"

text \<open>
  The call of \<open>retry\<close> in \<open>_monitorCalls\<close>: \<open>maxRetries: 3\<close>, the default initial delay
  and the predicate that gives up on a 404.
\<close>

definition fetchCall ::
  "(nat \<Rightarrow> js_error + snapshot) \<Rightarrow> (nat \<Rightarrow> rat) \<Rightarrow> (js_error + snapshot) \<times> retry_action list"
where
  "fetchCall get random = retry get 3 1000 not_404 random"

text \<open>
  The body of the inner \<open>try\<close> for one map entry. \<open>vapi callId k\<close> is the outcome of
  attempt \<open>k\<close> of \<open>vapi.calls.get(callId)\<close> in this sweep.
\<close>

definition monitor_try ::
  "int \<Rightarrow> (string \<Rightarrow> nat \<Rightarrow> js_error + snapshot) \<Rightarrow> (string \<Rightarrow> nat \<Rightarrow> rat) \<Rightarrow>
   string \<Rightarrow> callData \<Rightarrow> monitor \<Rightarrow> monitor \<times> js_error option"
where
  "monitor_try now vapi random callId callData s =
     (case fst (fetchCall (vapi callId) (random callId)) of
        Inl error \<Rightarrow> (s, Some error)
      | Inr call \<Rightarrow>
          (let s1 = (if snap_status call \<noteq> status callData
                     then emit (StatusChanged callId (status callData) (snap_status call) (Date now))
                            (set_call callId (callData\<lparr>status := snap_status call\<rparr>) s)
                     else s);
               (s2, err) = (if snap_events call \<noteq> []
                            then processCallEvents now callId (snap_events call) s1
                            else (s1, None))
           in case err of
                Some e \<Rightarrow> (s2, Some e)
              | None \<Rightarrow>
                  (case getCall callId s2 of
                     None \<Rightarrow> (s2, None)
                   | Some cd \<Rightarrow>
                       if snap_status call = ''completed'' \<and> status cd \<noteq> ''completed''
                       then (s2\<lparr>timeouts := timeouts s2 @ [(30000, callId)]\<rparr>, None)
                       else (s2, None))))"

text \<open>
  One iteration of the \<open>for\<close> loop: the skip of completed calls, then \<open>try\<close>/\<open>catch\<close>;
  the \<open>emit('error', error)\<close> of the \<open>catch\<close> block can throw in its turn.
  The entry's \<open>callData\<close> is the object the map holds for \<open>callId\<close>, so it is read
  from the registry as it is when the iteration starts.
\<close>

definition monitor_entry ::
  "int \<Rightarrow> (string \<Rightarrow> nat \<Rightarrow> js_error + snapshot) \<Rightarrow> (string \<Rightarrow> nat \<Rightarrow> rat) \<Rightarrow>
   string \<Rightarrow> monitor \<Rightarrow> monitor \<times> js_error option"
where
  "monitor_entry now vapi random callId s =
     (case getCall callId s of
        None \<Rightarrow> (s, None)
      | Some callData \<Rightarrow>
          if status callData = ''completed'' then (s, None)
          else
            (case monitor_try now vapi random callId callData s of
               (s', Some error) \<Rightarrow> emit_error error s'
             | (s', None) \<Rightarrow> (s', None)))"

text \<open>
  The \<open>for\<close> loop over the map's keys in insertion order: an exception that escapes an
  iteration ends it. \<open>monitorCalls\<close> is one sweep, with the outer \<open>try\<close>/\<open>catch\<close>; it runs
  to its end before anything else touches the monitor.
\<close>

fun for_entries ::
  "(string \<Rightarrow> monitor \<Rightarrow> monitor \<times> js_error option) \<Rightarrow> string list \<Rightarrow> monitor \<Rightarrow>
   monitor \<times> js_error option"
where
  "for_entries body [] s = (s, None)"
| "for_entries body (callId # rest) s =
     (case body callId s of
        (s', Some error) \<Rightarrow> (s', Some error)
      | (s', None) \<Rightarrow> for_entries body rest s')"

definition monitorCalls ::
  "int \<Rightarrow> (string \<Rightarrow> nat \<Rightarrow> js_error + snapshot) \<Rightarrow> (string \<Rightarrow> nat \<Rightarrow> rat) \<Rightarrow>
   monitor \<Rightarrow> monitor \<times> js_error option"
where
  "monitorCalls now vapi random s =
     (if \<not> monitoringEnabled s then (s, None)
      else
        (case for_entries (monitor_entry now vapi random) (map fst (activeCalls s)) s of
           (s', Some error) \<Rightarrow> emit_error error s'
         | (s', None) \<Rightarrow> (s', None)))"

section \<open>Scenario data\<close>

text \<open>
  The end-to-end scenario: \<open>c1\<close> is registered at time \<open>t0\<close>; then three batches are
  ingested at times \<open>t1\<close>, \<open>t2\<close>, \<open>t3\<close>: the answered event \<open>e1\<close> with timestamp
  \<open>T0\<close>, the transcription event \<open>e2\<close> with text "Hi there", and the ended event \<open>e3\<close>
  with timestamp \<open>T1\<close>.
\<close>

definition answered_at :: "int \<Rightarrow> event" where
  "answered_at T0 =
     \<lparr>ev_id = ''e1'', ev_type = ''call.answered'', ev_timestamp = Some T0, ev_data = None\<rparr>"

definition e2 :: event where
  "e2 = \<lparr>ev_id = ''e2'', ev_type = ''call.transcription'', ev_timestamp = None,
          ev_data = Some \<lparr>data_text = Some ''Hi there'', data_speaker = Some ''user'',
                           data_score = None\<rparr>\<rparr>"

definition ended_at :: "int \<Rightarrow> event" where
  "ended_at T1 =
     \<lparr>ev_id = ''e3'', ev_type = ''call.ended'', ev_timestamp = Some T1, ev_data = None\<rparr>"

definition registered :: "int \<Rightarrow> monitor" where
  "registered t0 = fst (addCall t0 ''c1'' [] (new_CallMonitor None))"

definition after_answered :: "int \<Rightarrow> int \<Rightarrow> int \<Rightarrow> monitor" where
  "after_answered t0 t1 T0 = fst (processCallEvents t1 ''c1'' [answered_at T0] (registered t0))"

definition after_transcription :: "int \<Rightarrow> int \<Rightarrow> int \<Rightarrow> int \<Rightarrow> monitor" where
  "after_transcription t0 t1 t2 T0 =
     fst (processCallEvents t2 ''c1'' [e2] (after_answered t0 t1 T0))"

definition after_ended :: "int \<Rightarrow> int \<Rightarrow> int \<Rightarrow> int \<Rightarrow> int \<Rightarrow> int \<Rightarrow> monitor" where
  "after_ended t0 t1 t2 t3 T0 T1 =
     fst (processCallEvents t3 ''c1'' [ended_at T1] (after_transcription t0 t1 t2 T0))"

text \<open>The scenario at concrete times: registered at 1000, answered at 1500, ended at 9000.\<close>

definition e1 :: event where
  "e1 = answered_at 1500"

definition e3 :: event where
  "e3 = ended_at 9000"

definition c1_added :: monitor where
  "c1_added = registered 1000"

definition c1_answered :: monitor where
  "c1_answered = after_answered 1000 2000 1500"

definition c1_completed :: monitor where
  "c1_completed = after_ended 1000 2000 3000 10000 1500 9000"

text \<open>A snapshot that reports the call completed, with no events.\<close>

definition completed_snapshot :: snapshot where
  "completed_snapshot = \<lparr>snap_status = ''completed'', snap_events = []\<rparr>"


definition flaky_vapi :: "string \<Rightarrow> nat \<Rightarrow> js_error + snapshot" where
  "flaky_vapi callId k =
     (if callId = ''c1'' then Inl (Error ''Service unavailable'' (Some 503))
      else Inr \<lparr>snap_status = ''in-progress'', snap_events = []\<rparr>)"

definition no_jitter :: "string \<Rightarrow> nat \<Rightarrow> rat" where
  "no_jitter callId k = 0"



text \<open>What a listener registered for \<open>call:status_changed\<close> receives.\<close>

definition is_status_changed :: "notification \<Rightarrow> bool" where
  "is_status_changed n = (channel n = ''call:status_changed'')"

definition event_notification :: "string \<Rightarrow> event \<Rightarrow> notification" where
  "event_notification callId event = CallEvent (''call:'' @ ev_type event) callId event"

lemmas eval_defs = c1_added_def c1_answered_def c1_completed_def e1_def e2_def e3_def
  answered_at_def ended_at_def registered_def after_answered_def after_transcription_def
  after_ended_def addCall_def new_CallMonitor_def
  has_call_def set_call_def emit_def startMonitoring_def new_callData_def getCall_def
  processCallEvents_def handle_event_def already_processed_def store_event_def new_Date_def
  empty_data_def Let_def

section \<open>Facts about the registry and the ingestion loop\<close>

lemma set_call_same: "getCall callId s = Some cd \<Longrightarrow> set_call callId cd s = s"
  by (simp add: getCall_def set_call_def update_triv)

lemma getCall_set_call: "getCall k (set_call k' cd s) = (if k = k' then Some cd else getCall k s)"
  by (simp add: getCall_def set_call_def update_conv')

lemma process_loop_seen:
  "\<forall>e\<in>set evs. already_processed cd e \<Longrightarrow> process_loop now callId evs cd out = ((cd, out), None)"
  by (induction evs) auto

lemma handle_event_events: "events (fst (handle_event e cd)) = events cd"
  by (auto simp: handle_event_def analyzeTranscription_def Let_def split: option.splits sum.splits)

lemma already_processed_iff: "already_processed cd e \<longleftrightarrow> ev_id e \<in> se_id ` set (events cd)"
  by (force simp: already_processed_def list_ex_iff)

lemma process_loop_ids:
  "process_loop now callId evs cd out = ((cd', out'), err) \<Longrightarrow>
   se_id ` set (events cd) \<subseteq> se_id ` set (events cd')"
proof (induction evs arbitrary: cd out)
  case Nil then show ?case by simp
next
  case (Cons e evs)
  show ?case
  proof (cases "already_processed cd e")
    case True with Cons show ?thesis by simp
  next
    case False
    obtain cd1 r where h: "handle_event e cd = (cd1, r)" by (cases "handle_event e cd")
    have ev: "events cd1 = events cd" using handle_event_events[of e cd] h by simp
    show ?thesis
    proof (cases r)
      case (Some x)
      with Cons.prems False h ev show ?thesis by simp
    next
      case None
      with Cons.prems False h have "process_loop now callId evs
               (cd1\<lparr>events := events cd1 @ [store_event e], lastUpdated := Date now\<rparr>)
               (out @ [CallEvent (''call:'' @ ev_type e) callId e]) = ((cd', out'), err)" by simp
      from Cons.IH[OF this] ev show ?thesis by auto
    qed
  qed
qed

lemma process_loop_all_seen:
  "process_loop now callId evs cd out = ((cd', out'), None) \<Longrightarrow>
   \<forall>e\<in>set evs. already_processed cd' e"
proof (induction evs arbitrary: cd out)
  case Nil then show ?case by simp
next
  case (Cons e evs)
  show ?case
  proof (cases "already_processed cd e")
    case True
    with Cons.prems have p: "process_loop now callId evs cd out = ((cd', out'), None)" by simp
    from process_loop_ids[OF p] True have "already_processed cd' e"
      by (auto simp: already_processed_iff)
    with Cons.IH[OF p] show ?thesis by simp
  next
    case False
    obtain cd1 r where h: "handle_event e cd = (cd1, r)" by (cases "handle_event e cd")
    show ?thesis
    proof (cases r)
      case (Some x)
      with Cons.prems False h show ?thesis by simp
    next
      case None
      with Cons.prems False h have p: "process_loop now callId evs
               (cd1\<lparr>events := events cd1 @ [store_event e], lastUpdated := Date now\<rparr>)
               (out @ [CallEvent (''call:'' @ ev_type e) callId e]) = ((cd', out'), None)" by simp
      from process_loop_ids[OF p] have "already_processed cd' e"
        by (auto simp: already_processed_iff store_event_def)
      with Cons.IH[OF p] show ?thesis by simp
    qed
  qed
qed

section \<open>Ingestion for an untracked call\<close>

text \<open>
  C10: ingesting events for a call id that is not in the registry is a no-op: for every
  untracked call id and every event list, \<open>_processCallEvents\<close> returns without an
  error, the monitor (registry, timers, notifications published) is unchanged, and so
  no notification is published, not even \<open>call:updated\<close>.
\<close>

theorem processCallEvents_untracked:
  "getCall callId s = None \<Longrightarrow> processCallEvents now callId evs s = (s, None)"
  by (simp add: processCallEvents_def)

theorem processCallEvents_untracked_witness:
  "getCall ''c2'' c1_added = None \<and> processCallEvents 2000 ''c2'' [e1] c1_added = (c1_added, None)"
proof -
  have h: "getCall ''c2'' c1_added = None" by (simp add: eval_defs)
  show ?thesis using h processCallEvents_untracked [OF h, of 2000 "[e1]"] by simp
qed

section \<open>Redelivery of events\<close>

text \<open>
  C7: event ingestion is idempotent per event id. When every event of a batch has an id
  that already appears in the record's \<open>events\<close>, ingestion leaves the whole monitor as
  it was (so the record's events, analytics, status and timestamps are the same) and
  only publishes \<open>call:updated\<close> with the unchanged record. In particular, ingesting
  again a batch that was ingested without error changes nothing. Inside any batch, an
  event whose id is already in \<open>events\<close> is skipped: the loop goes on with the rest of
  the batch from the same record and the same notifications.
\<close>

theorem redelivery_noop:
  "(already_processed cd e \<longrightarrow>
      process_loop now callId (e # rest) cd out = process_loop now callId rest cd out) \<and>
   (getCall callId s = Some cd \<and> (\<forall>e\<in>set evs. already_processed cd e) \<longrightarrow>
      processCallEvents now callId evs s = (s\<lparr>emitted := emitted s @ [CallUpdated cd]\<rparr>, None)) \<and>
   (processCallEvents now callId evs s = (s', None) \<and> getCall callId s' = Some cd' \<longrightarrow>
      processCallEvents now' callId evs s' = (s'\<lparr>emitted := emitted s' @ [CallUpdated cd']\<rparr>, None))"
proof -
  have A: "processCallEvents n callId evs t = (t\<lparr>emitted := emitted t @ [CallUpdated c]\<rparr>, None)"
    if "getCall callId t = Some c" "\<forall>e\<in>set evs. already_processed c e" for t c n
    using that by (simp add: processCallEvents_def process_loop_seen set_call_same)
  have B: "\<forall>e\<in>set evs. already_processed cd' e"
    if p: "processCallEvents now callId evs s = (s', None)" and g: "getCall callId s' = Some cd'"
  proof (cases "getCall callId s")
    case None
    with p g show ?thesis by (simp add: processCallEvents_def)
  next
    case (Some c)
    obtain c' out r where l: "process_loop now callId evs c [] = ((c', out), r)"
      by (metis surj_pair)
    with p Some have "r = None" and "s' = (set_call callId c' s)\<lparr>emitted := emitted s @ out @ [CallUpdated c']\<rparr>"
      by (auto simp: processCallEvents_def split: option.splits)
    with g have "cd' = c'" by (simp add: getCall_def set_call_def update_conv')
    with l \<open>r = None\<close> process_loop_all_seen show ?thesis by blast
  qed
  have C: "already_processed cd e \<longrightarrow>
      process_loop now callId (e # rest) cd out = process_loop now callId rest cd out"
    by simp
  show ?thesis using A B C by blast
qed

theorem redelivery_noop_witness:
  "getCall ''c1'' c1_answered = Some (the (getCall ''c1'' c1_answered)) \<and>
   already_processed (the (getCall ''c1'' c1_answered)) e1 \<and>
   processCallEvents 3000 ''c1'' [e1] c1_answered =
     (c1_answered\<lparr>emitted := emitted c1_answered @ [CallUpdated (the (getCall ''c1'' c1_answered))]\<rparr>, None) \<and>
   processCallEvents 2000 ''c1'' [e1] c1_added = (c1_answered, None) \<and>
   processCallEvents 4000 ''c1'' [e1] c1_answered =
     (c1_answered\<lparr>emitted := emitted c1_answered @ [CallUpdated (the (getCall ''c1'' c1_answered))]\<rparr>, None)"
proof -
  have h1: "getCall ''c1'' c1_answered = Some (the (getCall ''c1'' c1_answered))"
    by (simp add: eval_defs)
  have h2: "\<forall>e\<in>set [e1]. already_processed (the (getCall ''c1'' c1_answered)) e"
    by (simp add: eval_defs)
  have h3: "processCallEvents 2000 ''c1'' [e1] c1_added = (c1_answered, None)"
    by (simp add: c1_answered_def eval_defs)
  have h4: "already_processed (the (getCall ''c1'' c1_answered)) e1"
    using h2 by simp
  show ?thesis
    using h1 h2 h3 h4
      redelivery_noop [where callId = "''c1''" and s = c1_answered and evs = "[e1]" and now = 3000
        and cd = "the (getCall ''c1'' c1_answered)"]
      redelivery_noop [where callId = "''c1''" and s = c1_added and evs = "[e1]" and now = 2000
        and s' = c1_answered and cd' = "the (getCall ''c1'' c1_answered)" and now' = 4000]
    by blast
qed

section \<open>Registering a call twice\<close>

lemma has_call_after_addCall: "has_call callId (fst (addCall now callId md s))"
  by (auto simp: addCall_def has_call_def set_call_def emit_def startMonitoring_def Let_def update_conv')

lemma activeCalls_addCall:
  "activeCalls (fst (addCall now callId md s)) =
     (if has_call callId s then activeCalls s
      else AList.update callId (new_callData now callId md) (activeCalls s))"
  by (auto simp: addCall_def has_call_def set_call_def emit_def startMonitoring_def Let_def)

text \<open>
  C3, as the code has it: \<open>addCall\<close> on an id that is already tracked leaves the monitor
  unchanged (registry, timers, notifications) and resolves to \<open>undefined\<close>, not to the
  existing record. So registering an id a second time is a no-op whatever the first
  registration did, and the registry keeps one entry per id.
\<close>

theorem addCall_tracked_noop:
  "(has_call callId s \<longrightarrow> addCall now callId md s = (s, None)) \<and>
   addCall now' callId md' (fst (addCall now callId md s)) = (fst (addCall now callId md s), None) \<and>
   (distinct (map fst (activeCalls s)) \<longrightarrow>
      distinct (map fst (activeCalls (fst (addCall now callId md s)))))"
proof -
  have a: "has_call callId t \<Longrightarrow> addCall n callId m t = (t, None)" for t n m
    by (simp add: addCall_def)
  have c: "distinct (map fst (activeCalls s)) \<Longrightarrow>
      distinct (map fst (activeCalls (fst (addCall now callId md s))))"
    by (simp add: activeCalls_addCall distinct_update)
  show ?thesis using a has_call_after_addCall c by blast
qed

theorem addCall_tracked_noop_witness:
  "has_call ''c1'' c1_added \<and> addCall 2000 ''c1'' [(''k'', ''v'')] c1_added = (c1_added, None) \<and>
   distinct (map fst (activeCalls c1_added)) \<and>
   map fst (activeCalls (fst (addCall 2000 ''c1'' [(''k'', ''v'')] c1_added))) = [''c1'']"
proof -
  have h: "has_call ''c1'' c1_added" by (simp add: eval_defs)
  have d: "distinct (map fst (activeCalls c1_added))" by (simp add: eval_defs)
  have k: "map fst (activeCalls c1_added) = [''c1'']" by (simp add: eval_defs)
  show ?thesis
    using h d k addCall_tracked_noop [where callId = "''c1''" and s = c1_added and now = 2000
        and md = "[(''k'', ''v'')]"]
    by simp
qed

text \<open>
  C3 as stated fails: the second \<open>addCall\<close> of \<open>c1\<close> returns \<open>undefined\<close> while the
  registry holds the record created by the first.
\<close>

theorem addCall_tracked_counterexample:
  "snd (addCall 2000 ''c1'' [] c1_added) = None \<and>
   getCall ''c1'' c1_added = Some (new_callData 1000 ''c1'' []) \<and>
   snd (addCall 2000 ''c1'' [] c1_added) \<noteq> getCall ''c1'' c1_added"
  by (simp add: eval_defs)

section \<open>The backoff executor\<close>

lemma retry_3_cases:
  fixes fn :: "nat \<Rightarrow> js_error + 'a"
  shows "retry fn 3 1000 sr random =
    (case fn 0 of
       Inr v \<Rightarrow> (Inr v, [Invoke])
     | Inl err0 \<Rightarrow>
         if \<not> sr err0 then (Inl err0, [Invoke])
         else (case fn 1 of
                 Inr v \<Rightarrow> (Inr v, [Invoke, Wait (1000 + random 0 * 200), Invoke])
               | Inl err1 \<Rightarrow>
                   if \<not> sr err1 then (Inl err1, [Invoke, Wait (1000 + random 0 * 200), Invoke])
                   else (case fn 2 of
                           Inr v \<Rightarrow> (Inr v, [Invoke, Wait (1000 + random 0 * 200), Invoke,
                                              Wait (2000 + random 1 * 400), Invoke])
                         | Inl err2 \<Rightarrow> (Inl err2, [Invoke, Wait (1000 + random 0 * 200), Invoke,
                                              Wait (2000 + random 1 * 400), Invoke]))))"
  by (simp add: retry_def retry_loop.simps [of fn 3 1000 sr random 0]
        retry_loop.simps [of fn 3 1000 sr random "Suc 0"] retry_loop.simps [of fn 3 1000 sr random "Suc (Suc 0)"]
        Let_def numeral_2_eq_2 split: sum.splits)

lemma retry_loop_stops:
  "retry_loop fn maxRetries d sr random r le tr = (res, tr') \<Longrightarrow>
   fn k = Inl e \<Longrightarrow> \<not> sr e \<Longrightarrow> r \<le> k \<Longrightarrow>
   invocations tr' \<le> invocations tr + (k + 1 - r)"
proof (induction fn maxRetries d sr random r le tr rule: retry_loop.induct)
  case (1 fn maxRetries initialDelay shouldRetry random retries lastError trace)
  show ?case
  proof (cases "int retries < maxRetries")
    case False
    with "1.prems" show ?thesis
      by (auto simp: retry_loop.simps [of fn maxRetries initialDelay shouldRetry random retries]
            split: option.splits)
  next
    case True
    show ?thesis
    proof (cases "fn retries")
      case (Inr v)
      with True "1.prems" show ?thesis
        by (auto simp: retry_loop.simps [of fn maxRetries initialDelay shouldRetry random retries]
              invocations_def)
    next
      case (Inl err)
      show ?thesis
      proof (cases "\<not> shouldRetry err \<or> int retries = maxRetries - 1")
        case stop: True
        with True Inl "1.prems" show ?thesis
          by (auto simp: retry_loop.simps [of fn maxRetries initialDelay shouldRetry random retries]
                invocations_def)
      next
        case go: False
        with Inl "1.prems" have "retries \<noteq> k" by auto
        with "1.prems" have lt: "retries + 1 \<le> k" by simp
        from True Inl go "1.prems"(1)
        have step: "retry_loop fn maxRetries initialDelay shouldRetry random (retries + 1) (Some err)
            (trace @ [Invoke, Wait (initialDelay * 2 ^ retries + random retries * (2 / 10) * (initialDelay * 2 ^ retries))])
            = (res, tr')"
          by (simp add: retry_loop.simps [of fn maxRetries initialDelay shouldRetry random retries] Let_def)
        from "1.IH" [OF True Inl go refl refl step "1.prems"(2) "1.prems"(3) lt]
        show ?thesis using lt by (simp add: invocations_def)
      qed
    qed
  qed
qed

text \<open>
  C5: with \<open>maxRetries = 3\<close> and \<open>initialDelay = 1000\<close>, and \<open>Math.random()\<close> in
  \<open>[0, 1)\<close>, \<open>retry\<close> invokes the operation at most 3 times; it waits
  \<open>1000 + j0\<close> ms before the second attempt and \<open>2000 + j1\<close> ms before the third,
  the jitter \<open>j\<close> being at most 20% of the delay; nothing is awaited after the last
  attempt; when all three attempts fail the error of the third is the result; and
  every error returned is the error the last invocation threw.
\<close>

theorem retry_backoff_3_1000:
  fixes fn :: "nat \<Rightarrow> js_error + 'a"
  assumes jitter: "\<forall>k. 0 \<le> random k \<and> random k < 1"
  shows "invocations (snd (retry fn 3 1000 sr random)) \<le> 3 \<and>
    (\<exists>j0 j1. 0 \<le> j0 \<and> j0 \<le> 2 / 10 * 1000 \<and> 0 \<le> j1 \<and> j1 \<le> 2 / 10 * 2000 \<and>
       (snd (retry fn 3 1000 sr random) = [Invoke] \<or>
        snd (retry fn 3 1000 sr random) = [Invoke, Wait (1000 + j0), Invoke] \<or>
        snd (retry fn 3 1000 sr random) =
          [Invoke, Wait (1000 + j0), Invoke, Wait (2000 + j1), Invoke])) \<and>
    (\<forall>a b c. fn 0 = Inl a \<and> sr a \<and> fn 1 = Inl b \<and> sr b \<and> fn 2 = Inl c \<longrightarrow>
       fst (retry fn 3 1000 sr random) = Inl c \<and>
       invocations (snd (retry fn 3 1000 sr random)) = 3) \<and>
    (\<forall>e. fst (retry fn 3 1000 sr random) = Inl e \<longrightarrow>
       fn (invocations (snd (retry fn 3 1000 sr random)) - 1) = Inl e)"
proof -
  let ?j0 = "random 0 * 200" and ?j1 = "random 1 * 400"
  have b0: "0 \<le> ?j0 \<and> ?j0 \<le> 2 / 10 * 1000" using jitter [rule_format, of 0] by simp
  have b1: "0 \<le> ?j1 \<and> ?j1 \<le> 2 / 10 * 2000" using jitter [rule_format, of 1] by simp
  have n: "invocations (snd (retry fn 3 1000 sr random)) \<le> 3"
    by (simp add: retry_3_cases invocations_def split: sum.splits)
  have shape: "snd (retry fn 3 1000 sr random) = [Invoke] \<or>
        snd (retry fn 3 1000 sr random) = [Invoke, Wait (1000 + ?j0), Invoke] \<or>
        snd (retry fn 3 1000 sr random) =
          [Invoke, Wait (1000 + ?j0), Invoke, Wait (2000 + ?j1), Invoke]"
    by (simp add: retry_3_cases split: sum.splits)
  have exhausted: "fst (retry fn 3 1000 sr random) = Inl c \<and>
       invocations (snd (retry fn 3 1000 sr random)) = 3"
    if "fn 0 = Inl a \<and> sr a \<and> fn 1 = Inl b \<and> sr b \<and> fn 2 = Inl c" for a b c
    using that by (simp add: retry_3_cases invocations_def)
  have last_err: "fn (invocations (snd (retry fn 3 1000 sr random)) - 1) = Inl e"
    if "fst (retry fn 3 1000 sr random) = Inl e" for e
    using that by (auto simp: retry_3_cases invocations_def numeral_2_eq_2 split: sum.splits if_splits)
  from b0 b1 shape have "\<exists>j0 j1. 0 \<le> j0 \<and> j0 \<le> 2 / 10 * 1000 \<and> 0 \<le> j1 \<and> j1 \<le> 2 / 10 * 2000 \<and>
       (snd (retry fn 3 1000 sr random) = [Invoke] \<or>
        snd (retry fn 3 1000 sr random) = [Invoke, Wait (1000 + j0), Invoke] \<or>
        snd (retry fn 3 1000 sr random) =
          [Invoke, Wait (1000 + j0), Invoke, Wait (2000 + j1), Invoke])"
    by blast
  with n exhausted last_err show ?thesis by blast
qed

theorem retry_backoff_3_1000_witness:
  "(0::rat) \<le> 1 / 2 \<and> (1 / 2 :: rat) < 1 \<and>
   retry (\<lambda>k. Inl (Error ''timeout'' (Some (500 + int k))) :: js_error + snapshot) 3 1000
         (\<lambda>e. True) (\<lambda>k. 1 / 2)
     = (Inl (Error ''timeout'' (Some 502)), [Invoke, Wait 1100, Invoke, Wait 2200, Invoke]) \<and>
   invocations [Invoke, Wait 1100, Invoke, Wait 2200, Invoke] = 3 \<and>
   waits [Invoke, Wait 1100, Invoke, Wait 2200, Invoke] = [1100, 2200]"
proof -
  have h: "\<forall>k::nat. (0::rat) \<le> 1 / 2 \<and> (1 / 2 :: rat) < 1" by simp
  have r: "retry (\<lambda>k. Inl (Error ''timeout'' (Some (500 + int k))) :: js_error + snapshot) 3 1000
         (\<lambda>e. True) (\<lambda>k. 1 / 2)
     = (Inl (Error ''timeout'' (Some 502)), [Invoke, Wait 1100, Invoke, Wait 2200, Invoke])"
    by (simp add: retry_3_cases)
  show ?thesis
    using r retry_backoff_3_1000 [of "\<lambda>k. 1 / 2"
        "\<lambda>k. Inl (Error ''timeout'' (Some (500 + int k))) :: js_error + snapshot" "\<lambda>e. True", OF h]
    by (simp add: invocations_def)
qed

text \<open>
  C6: a failure that \<open>shouldRetry\<close> rejects is propagated at once. When the first
  attempt fails so (and \<open>maxRetries\<close> allows an attempt at all), the operation is
  invoked exactly once and nothing is awaited; this is what the sweep's fetch does on a
  404. In general the operation is never invoked again after a rejected failure.
\<close>

theorem retry_rejected_once:
  "(0 < maxRetries \<and> fn 0 = Inl e \<and> \<not> shouldRetry e \<longrightarrow>
      retry fn maxRetries initialDelay shouldRetry random = (Inl e, [Invoke])) \<and>
   (get 0 = Inl (Error m (Some 404)) \<longrightarrow>
      fetchCall get random' = (Inl (Error m (Some 404)), [Invoke])) \<and>
   (fn k = Inl e' \<and> \<not> shouldRetry e' \<longrightarrow>
      invocations (snd (retry fn maxRetries initialDelay shouldRetry random)) \<le> k + 1)"
proof -
  have a: "0 < maxRetries \<and> fn 0 = Inl e \<and> \<not> shouldRetry e \<longrightarrow>
      retry fn maxRetries initialDelay shouldRetry random = (Inl e, [Invoke])"
    by (simp add: retry_def retry_loop.simps)
  have b: "get 0 = Inl (Error m (Some 404)) \<longrightarrow>
      fetchCall get random' = (Inl (Error m (Some 404)), [Invoke])"
    by (simp add: retry_def fetchCall_def not_404_def retry_loop.simps)
  have c: "invocations (snd (retry fn maxRetries initialDelay shouldRetry random)) \<le> k + 1"
    if "fn k = Inl e'" "\<not> shouldRetry e'"
  proof -
    obtain res tr where r: "retry_loop fn maxRetries initialDelay shouldRetry random 0 None [] = (res, tr)"
      by (metis surj_pair)
    from retry_loop_stops [OF r that] have "invocations tr \<le> k + 1"
      by (simp add: invocations_def)
    with r show ?thesis by (simp add: retry_def)
  qed
  from a b c show ?thesis by blast
qed

theorem retry_rejected_once_witness:
  "(0::int) < 3 \<and> \<not> not_404 (Error ''Resource not found'' (Some 404)) \<and>
   retry (\<lambda>k. Inl (Error ''Resource not found'' (Some 404)) :: js_error + snapshot) 3 1000 not_404 (\<lambda>k. 1 / 2)
     = (Inl (Error ''Resource not found'' (Some 404)), [Invoke]) \<and>
   fetchCall (\<lambda>k. Inl (Error ''Resource not found'' (Some 404))) (\<lambda>k. 1 / 2)
     = (Inl (Error ''Resource not found'' (Some 404)), [Invoke]) \<and>
   invocations [Invoke] \<le> 0 + 1"
proof -
  have h: "\<not> not_404 (Error ''Resource not found'' (Some 404))" by (simp add: not_404_def)
  show ?thesis
    using h retry_rejected_once [where maxRetries = 3 and shouldRetry = not_404
        and fn = "\<lambda>k. Inl (Error ''Resource not found'' (Some 404)) :: js_error + snapshot"
        and e = "Error ''Resource not found'' (Some 404)" and initialDelay = 1000
        and random = "\<lambda>k. 1 / 2" and get = "\<lambda>k. Inl (Error ''Resource not found'' (Some 404))"
        and m = "''Resource not found''" and random' = "\<lambda>k. 1 / 2" and k = 0
        and e' = "Error ''Resource not found'' (Some 404)"]
    by (simp add: invocations_def)
qed

section \<open>Notifications of an ingestion\<close>


lemma status_changed_event [simp]:
  "is_status_changed (event_notification callId e) \<longleftrightarrow> ev_type e = ''status_changed''"
  by (simp add: is_status_changed_def event_notification_def)

lemma status_changed_updated [simp]: "\<not> is_status_changed (CallUpdated cd)"
  by (simp add: is_status_changed_def)






section \<open>The end-to-end scenario\<close>

text \<open>
  C8, as the code has it: in the scenario the status is \<open>initializing\<close> after the
  registration, \<open>in-progress\<close> after the answered event and after the transcription,
  and \<open>completed\<close> after the ended event; \<open>duration\<close> is \<open>(T1 - t0) / 1000\<close> seconds,
  measured from the registration time \<open>t0\<close> (\<open>createdAt\<close>), not from \<open>T0\<close>; ingestion
  publishes no \<open>call:status_changed\<close> at all, but three \<open>call:<type>\<close> notifications
  each followed by \<open>call:updated\<close>; and \<open>talkTime\<close> goes from 0 to \<open>(2 / 150) * 60\<close>
  at the transcription and is not changed again.
\<close>

theorem end_to_end_scenario:
  "map_option status (getCall ''c1'' (registered t0)) = Some ''initializing'' \<and>
   map_option status (getCall ''c1'' (after_answered t0 t1 T0)) = Some ''in-progress'' \<and>
   map_option status (getCall ''c1'' (after_transcription t0 t1 t2 T0)) = Some ''in-progress'' \<and>
   map_option status (getCall ''c1'' (after_ended t0 t1 t2 t3 T0 T1)) = Some ''completed'' \<and>
   map_option duration (getCall ''c1'' (after_ended t0 t1 t2 t3 T0 T1)) =
     Some (Some (Num (of_int (T1 - t0) / 1000))) \<and>
   filter is_status_changed (emitted (after_ended t0 t1 t2 t3 T0 T1)) = [] \<and>
   drop 2 (emitted (after_ended t0 t1 t2 t3 T0 T1)) =
     [event_notification ''c1'' (answered_at T0),
      CallUpdated (the (getCall ''c1'' (after_answered t0 t1 T0))),
      event_notification ''c1'' e2,
      CallUpdated (the (getCall ''c1'' (after_transcription t0 t1 t2 T0))),
      event_notification ''c1'' (ended_at T1),
      CallUpdated (the (getCall ''c1'' (after_ended t0 t1 t2 t3 T0 T1)))] \<and>
   map_option (talkTime \<circ> analytics) (getCall ''c1'' (after_answered t0 t1 T0)) = Some 0 \<and>
   map_option (talkTime \<circ> analytics) (getCall ''c1'' (after_transcription t0 t1 t2 T0)) =
     Some (0 + (2 / 150) * 60) \<and>
   map_option (talkTime \<circ> analytics) (getCall ''c1'' (after_ended t0 t1 t2 t3 T0 T1)) =
     Some ((2 / 150) * 60)"
  by (simp add: eval_defs is_status_changed_def event_notification_def analyzeTranscription_def
        split_length_def is_space_def endsWith_def)

text \<open>
  C8 as stated fails: registered at 1000, answered at \<open>T0 = 1500\<close> and ended at
  \<open>T1 = 9000\<close>, the call gets the duration 8 seconds, not 7.5, and the number of
  \<open>call:status_changed\<close> notifications is 0, not 3.
\<close>

theorem end_to_end_counterexample:
  "map_option duration (getCall ''c1'' c1_completed) = Some (Some (Num 8)) \<and>
   Num 8 \<noteq> Num (of_int (9000 - 1500) / 1000) \<and>
   length (filter is_status_changed (emitted c1_completed)) = 0"
  by (simp add: eval_defs is_status_changed_def event_notification_def analyzeTranscription_def
        split_length_def is_space_def endsWith_def)

section \<open>Facts about the sweep\<close>

lemmas sweep_defs = monitorCalls_def monitor_entry_def monitor_try_def fetchCall_def retry_3_cases
  emit_error_def

lemma getCall_emit [simp]: "getCall c (emit n s) = getCall c s"
  by (simp add: getCall_def emit_def)

lemma getCall_timeouts [simp]: "getCall c (t\<lparr>timeouts := ts\<rparr>) = getCall c t"
  by (simp add: getCall_def)

lemma getCall_emit_error [simp]: "getCall c (fst (emit_error e s)) = getCall c s"
  by (simp add: emit_error_def)

lemma getCall_processCallEvents_other:
  "c \<noteq> k \<Longrightarrow> getCall c (fst (processCallEvents now k evs s)) = getCall c s"
  by (auto simp: processCallEvents_def getCall_def set_call_def update_conv'
        split: option.splits prod.splits)

lemma errorListener_processCallEvents [simp]:
  "errorListener (fst (processCallEvents now k evs s)) = errorListener s"
  by (auto simp: processCallEvents_def set_call_def split: option.splits prod.splits)

text \<open>
  What the body of the \<open>try\<close> does to the monitor is made of four kinds of steps; a
  property that each of them keeps is kept by the iteration and by the loop.
\<close>

lemma monitor_try_preserves:
  assumes init: "P s"
    and set: "\<And>t x. P t \<Longrightarrow> P (set_call k x t)"
    and em: "\<And>t n. P t \<Longrightarrow> P (emit n t)"
    and ing: "\<And>t evs. P t \<Longrightarrow> P (fst (processCallEvents now k evs t))"
    and tm: "\<And>t ts. P t \<Longrightarrow> P (t\<lparr>timeouts := ts\<rparr>)"
  shows "P (fst (monitor_try now vapi random k cd s))"
proof (cases "fst (fetchCall (vapi k) (random k))")
  case (Inl e)
  with init show ?thesis by (simp add: monitor_try_def)
next
  case (Inr call)
  define s1 where "s1 = (if snap_status call \<noteq> status cd
                     then emit (StatusChanged k (status cd) (snap_status call) (Date now))
                            (set_call k (cd\<lparr>status := snap_status call\<rparr>) s)
                     else s)"
  define r where "r = (if snap_events call \<noteq> []
                            then processCallEvents now k (snap_events call) s1
                            else (s1, None))"
  have p1: "P s1" using init set em by (simp add: s1_def)
  have p2: "P (fst r)" using p1 ing by (simp add: r_def)
  have "monitor_try now vapi random k cd s =
     (case snd r of
                Some e \<Rightarrow> (fst r, Some e)
              | None \<Rightarrow>
                  (case getCall k (fst r) of
                     None \<Rightarrow> (fst r, None)
                   | Some cd' \<Rightarrow>
                       if snap_status call = ''completed'' \<and> status cd' \<noteq> ''completed''
                       then ((fst r)\<lparr>timeouts := timeouts (fst r) @ [(30000, k)]\<rparr>, None)
                       else (fst r, None)))"
    unfolding r_def s1_def using Inr by (simp add: monitor_try_def Let_def split_beta)
  then show ?thesis using p2 tm by (simp split: option.splits)
qed

lemma monitor_entry_preserves:
  assumes init: "P s"
    and set: "\<And>t x. P t \<Longrightarrow> P (set_call k x t)"
    and em: "\<And>t n. P t \<Longrightarrow> P (emit n t)"
    and ing: "\<And>t evs. P t \<Longrightarrow> P (fst (processCallEvents now k evs t))"
    and tm: "\<And>t ts. P t \<Longrightarrow> P (t\<lparr>timeouts := ts\<rparr>)"
  shows "P (fst (monitor_entry now vapi random k s))"
proof (cases "getCall k s")
  case None
  with init show ?thesis by (simp add: monitor_entry_def)
next
  case (Some cd)
  have p: "P (fst (monitor_try now vapi random k cd s))"
    using init set em ing tm by (rule monitor_try_preserves)
  then have "P (fst (emit_error e (fst (monitor_try now vapi random k cd s))))" for e
    using em by (simp add: emit_error_def)
  with Some init p show ?thesis
    by (simp add: monitor_entry_def split_beta split: option.splits)
qed

lemma getCall_monitor_entry_other:
  assumes "c \<noteq> k"
  shows "getCall c (fst (monitor_entry now vapi random k s)) = getCall c s"
  using assms
  by (intro monitor_entry_preserves [where P = "\<lambda>t. getCall c t = getCall c s"])
     (simp_all add: getCall_set_call getCall_processCallEvents_other)

lemma errorListener_monitor_entry [simp]:
  "errorListener (fst (monitor_entry now vapi random k s)) = errorListener s"
  by (intro monitor_entry_preserves [where P = "\<lambda>t. errorListener t = errorListener s"])
     (simp_all add: set_call_def emit_def)


lemma monitor_entry_completed:
  "getCall k s = Some cd \<Longrightarrow> status cd = ''completed'' \<Longrightarrow>
   monitor_entry now vapi random k s = (s, None)"
  by (simp add: monitor_entry_def)

text \<open>The loop, whether or not an iteration throws.\<close>

lemma for_entries_Cons:
  "for_entries body (k # ks) s =
     (if snd (body k s) = None then for_entries body ks (fst (body k s)) else body k s)"
  by (cases "body k s") (auto split: option.splits)

lemma for_entries_preserves:
  assumes "P s" and "\<And>k t. k \<in> set ks \<Longrightarrow> P t \<Longrightarrow> P (fst (body k t))"
  shows "P (fst (for_entries body ks s))"
  using assms
proof (induction ks arbitrary: s)
  case Nil
  then show ?case by simp
next
  case (Cons k ks)
  have "P (fst (body k s))" using Cons.prems by simp
  moreover have "P (fst (for_entries body ks (fst (body k s))))"
    using Cons.IH [of "fst (body k s)"] Cons.prems by simp
  ultimately show ?case by (simp add: for_entries_Cons del: for_entries.simps(2))
qed

lemma for_entries_completed:
  assumes "getCall c s = Some cd" "status cd = ''completed''"
  shows "getCall c (fst (for_entries (monitor_entry now vapi random) ks s)) = Some cd"
proof (rule for_entries_preserves [where P = "\<lambda>t. getCall c t = Some cd"])
  show "getCall c s = Some cd" by fact
next
  fix k t
  assume g: "getCall c t = Some cd"
  show "getCall c (fst (monitor_entry now vapi random k t)) = Some cd"
  proof (cases "c = k")
    case True
    with g assms(2) show ?thesis by (simp add: monitor_entry_completed)
  next
    case False
    with g show ?thesis by (simp add: getCall_monitor_entry_other)
  qed
qed

lemma monitorCalls_completed:
  assumes "getCall c s = Some cd" "status cd = ''completed''"
  shows "getCall c (fst (monitorCalls now vapi random s)) = Some cd"
  using assms for_entries_completed [OF assms, of now vapi random "map fst (activeCalls s)"]
  by (simp add: monitorCalls_def split_beta split: option.splits)

lemma status_handle_event:
  "status (fst (handle_event e cd)) =
     (if ev_type e = ''call.answered'' then ''in-progress''
      else if ev_type e = ''call.ended'' then ''completed'' else status cd)"
  by (auto simp: handle_event_def analyzeTranscription_def Let_def split: option.splits sum.splits)

lemma process_loop_status:
  "process_loop now callId evs cd out = ((cd', out'), err) \<Longrightarrow>
   status cd' = status cd \<or> status cd' = ''in-progress'' \<or> status cd' = ''completed''"
proof (induction evs arbitrary: cd out)
  case Nil
  then show ?case by simp
next
  case (Cons e evs)
  show ?case
  proof (cases "already_processed cd e")
    case True
    with Cons show ?thesis by simp
  next
    case False
    obtain cd1 r where h: "handle_event e cd = (cd1, r)" by (cases "handle_event e cd")
    have st: "status cd1 = status cd \<or> status cd1 = ''in-progress'' \<or> status cd1 = ''completed''"
      using status_handle_event [of e cd] h by (simp split: if_splits)
    show ?thesis
    proof (cases r)
      case (Some x)
      with Cons.prems False h st show ?thesis by simp
    next
      case None
      with Cons.prems False h have "process_loop now callId evs
               (cd1\<lparr>events := events cd1 @ [store_event e], lastUpdated := Date now\<rparr>)
               (out @ [CallEvent (''call:'' @ ev_type e) callId e]) = ((cd', out'), err)" by simp
      from Cons.IH [OF this] st show ?thesis by auto
    qed
  qed
qed

lemma process_loop_completed:
  "process_loop now callId evs cd out = ((cd', out'), err) \<Longrightarrow> status cd = ''completed'' \<Longrightarrow>
   \<forall>e\<in>set evs. ev_type e = ''call.answered'' \<longrightarrow> already_processed cd e \<Longrightarrow>
   status cd' = ''completed''"
proof (induction evs arbitrary: cd out)
  case Nil
  then show ?case by simp
next
  case (Cons e evs)
  show ?case
  proof (cases "already_processed cd e")
    case True
    with Cons show ?thesis by simp
  next
    case False
    obtain cd1 r where h: "handle_event e cd = (cd1, r)" by (cases "handle_event e cd")
    from False Cons.prems(3) have na: "ev_type e \<noteq> ''call.answered''" by auto
    have st: "status cd1 = ''completed''"
      using status_handle_event [of e cd] h na Cons.prems(2) by simp
    have ev: "events cd1 = events cd" using handle_event_events [of e cd] h by simp
    show ?thesis
    proof (cases r)
      case (Some x)
      with Cons.prems False h st show ?thesis by simp
    next
      case None
      let ?cd2 = "cd1\<lparr>events := events cd1 @ [store_event e], lastUpdated := Date now\<rparr>"
      from None Cons.prems False h have p: "process_loop now callId evs ?cd2
               (out @ [CallEvent (''call:'' @ ev_type e) callId e]) = ((cd', out'), err)" by simp
      have "\<forall>x\<in>set evs. ev_type x = ''call.answered'' \<longrightarrow> already_processed ?cd2 x"
        using Cons.prems(3) ev by (auto simp: already_processed_iff)
      from Cons.IH [OF p _ this] st show ?thesis by simp
    qed
  qed
qed

section \<open>How far the status can regress\<close>

text \<open>
  C1, as the code has it. Ingestion sets the status only to \<open>in-progress\<close> or
  \<open>completed\<close>, so it never returns a record to \<open>initializing\<close>; a batch in which
  every \<open>call.answered\<close> event was already processed leaves a completed record
  completed; and a sweep skips a completed record and leaves it as it is.
\<close>

theorem status_regression_limits:
  "(getCall callId s = Some cd \<longrightarrow>
      (\<exists>cd'. getCall callId (fst (processCallEvents now callId evs s)) = Some cd' \<and>
         (status cd' = status cd \<or> status cd' = ''in-progress'' \<or> status cd' = ''completed''))) \<and>
   (getCall callId s = Some cd \<and> status cd = ''completed'' \<and>
    (\<forall>e\<in>set evs. ev_type e = ''call.answered'' \<longrightarrow> already_processed cd e) \<longrightarrow>
      (\<exists>cd'. getCall callId (fst (processCallEvents now callId evs s)) = Some cd' \<and>
         status cd' = ''completed'')) \<and>
   (getCall callId s = Some cd \<and> status cd = ''completed'' \<longrightarrow>
      getCall callId (fst (monitorCalls now vapi random s)) = Some cd)"
proof -
  have loop: "\<exists>cd' out r. process_loop now callId evs cd [] = ((cd', out), r) \<and>
      getCall callId (fst (processCallEvents now callId evs s)) = Some cd'"
    if g: "getCall callId s = Some cd"
  proof -
    obtain cd' out r where l: "process_loop now callId evs cd [] = ((cd', out), r)"
      by (metis surj_pair)
    with g have "getCall callId (fst (processCallEvents now callId evs s)) = Some cd'"
      by (cases r) (simp_all add: processCallEvents_def getCall_def set_call_def update_conv')
    with l show ?thesis by blast
  qed
  have a: "\<exists>cd'. getCall callId (fst (processCallEvents now callId evs s)) = Some cd' \<and>
         (status cd' = status cd \<or> status cd' = ''in-progress'' \<or> status cd' = ''completed'')"
    if g: "getCall callId s = Some cd"
    using loop [OF g] process_loop_status by blast
  have b: "\<exists>cd'. getCall callId (fst (processCallEvents now callId evs s)) = Some cd' \<and>
         status cd' = ''completed''"
    if g: "getCall callId s = Some cd" and c: "status cd = ''completed''"
      and n: "\<forall>e\<in>set evs. ev_type e = ''call.answered'' \<longrightarrow> already_processed cd e"
    using loop [OF g] process_loop_completed [OF _ c n] by blast
  have c: "getCall callId (fst (monitorCalls now vapi random s)) = Some cd"
    if g: "getCall callId s = Some cd" and c: "status cd = ''completed''"
    using g c by (rule monitorCalls_completed)
  from a b c show ?thesis by blast
qed

theorem status_regression_limits_witness:
  "getCall ''c1'' c1_completed = Some (the (getCall ''c1'' c1_completed)) \<and>
   status (the (getCall ''c1'' c1_completed)) = ''completed'' \<and>
   ev_type e1 = ''call.answered'' \<and> already_processed (the (getCall ''c1'' c1_completed)) e1 \<and>
   map_option status (getCall ''c1'' (fst (processCallEvents 11000 ''c1'' [e1] c1_completed)))
     = Some ''completed'' \<and>
   getCall ''c1'' (fst (monitorCalls 11000 flaky_vapi no_jitter c1_completed))
     = Some (the (getCall ''c1'' c1_completed))"
proof -
  have g: "getCall ''c1'' c1_completed = Some (the (getCall ''c1'' c1_completed))"
    by (simp add: eval_defs analyzeTranscription_def)
  have st: "status (the (getCall ''c1'' c1_completed)) = ''completed''"
    by (simp add: eval_defs analyzeTranscription_def)
  have ty: "ev_type e1 = ''call.answered''" by (simp add: eval_defs)
  have ap: "already_processed (the (getCall ''c1'' c1_completed)) e1"
    by (simp add: eval_defs analyzeTranscription_def)
  have n: "\<forall>e\<in>set [e1]. ev_type e = ''call.answered'' \<longrightarrow>
      already_processed (the (getCall ''c1'' c1_completed)) e"
    using ap by simp
  show ?thesis
    using g st ty ap n
      status_regression_limits [where callId = "''c1''" and s = c1_completed
        and cd = "the (getCall ''c1'' c1_completed)" and evs = "[e1]" and now = 11000
        and vapi = flaky_vapi and random = no_jitter]
    by auto
qed

text \<open>
  C1 as stated fails: when the ended event is delivered before the answered event, the
  record is \<open>completed\<close> after the first and back to \<open>in-progress\<close> after the second.
\<close>

theorem status_regression_counterexample:
  "map_option status (getCall ''c1'' (fst (processCallEvents 2000 ''c1'' [e3] c1_added)))
     = Some ''completed'' \<and>
   map_option status
     (getCall ''c1'' (fst (processCallEvents 3000 ''c1'' [e1]
        (fst (processCallEvents 2000 ''c1'' [e3] c1_added)))))
     = Some ''in-progress''"
  by (simp add: eval_defs)

section \<open>The removal timer\<close>

text \<open>
  Whatever the two statuses are, a snapshot without events never schedules a removal:
  when the statuses differ the record has been given the fetched one before the test.
\<close>

lemma monitor_try_no_events_no_timer:
  assumes "getCall callId s = Some cd" "fst (fetchCall (vapi callId) (random callId)) = Inr call"
    "snap_events call = []"
  shows "timeouts (fst (monitor_try now vapi random callId cd s)) = timeouts s"
proof -
  have t: "timeouts (emit n (set_call callId x s)) = timeouts s" for n x
    by (simp add: emit_def set_call_def)
  show ?thesis
    using assms by (simp add: monitor_try_def Let_def getCall_set_call t)
qed

text \<open>
  C2 on the code: \<open>c1\<close> is in progress and the fetched snapshot says \<open>completed\<close>.
  The sweep stores the fetched status in the record before it compares the two, so
  the comparison sees \<open>completed\<close> on both sides and no removal timer is scheduled.
\<close>

theorem sweep_completed_schedules_no_removal:
  "map_option status (getCall ''c1'' c1_answered) = Some ''in-progress'' \<and>
   map_option status
     (getCall ''c1'' (fst (monitorCalls 3000 (\<lambda>callId k. Inr completed_snapshot) no_jitter c1_answered)))
     = Some ''completed'' \<and>
   timeouts (fst (monitorCalls 3000 (\<lambda>callId k. Inr completed_snapshot) no_jitter c1_answered)) = []"
  by (simp add: sweep_defs completed_snapshot_def no_jitter_def eval_defs)

section \<open>A failing fetch during a sweep\<close>














end
